theory Spec2Isabelle
  imports Main
begin

section \<open>Python values and exceptions\<close>

text \<open>
  The catalog class \<open>PogoData\<close> of \<open>pogodata.py\<close> is embedded function by function.
  Strings are byte strings (ASCII), an exception raised by the source is a value
  \<open>Inl e\<close> of a sum type.
\<close>

datatype error =
    KeyError string
  | IndexError
  | ValueError
  | AttributeError
  | TypeError
  | ReError

text \<open>\<open>str.lower()\<close> on ASCII text.\<close>

definition lower_char :: "char \<Rightarrow> char" where
  "lower_char c =
     (case map_of (zip ''ABCDEFGHIJKLMNOPQRSTUVWXYZ'' ''abcdefghijklmnopqrstuvwxyz'') c of
        Some d \<Rightarrow> d
      | None \<Rightarrow> c)"

definition lower :: "string \<Rightarrow> string" where
  "lower s = map lower_char s"

section \<open>The locale table\<close>

text \<open>
  \<open>reload\<close>, lines 55 to 58:
  \<^verbatim>\<open>
  self.locale = {}
  for i in range(0, len(raw_locale), 2):
      self.locale[raw_locale[i]] = raw_locale[i+1]
  \<close>
  The loop reads the array two elements at a time; \<open>raw_locale[i+1]\<close> raises
  \<open>IndexError\<close> when the last key has no value after it. The i18n array holds strings.
\<close>

fun build_locale :: "(string \<rightharpoonup> string) \<Rightarrow> string list \<Rightarrow> error + (string \<rightharpoonup> string)" where
  "build_locale loc [] = Inr loc"
| "build_locale loc [k] = Inl IndexError"
| "build_locale loc (k # v # rest) = build_locale (loc(k \<mapsto> v)) rest"

text \<open>\<open>get_locale\<close>: \<open>self.locale.get(key.lower(), "?")\<close>.\<close>

definition get_locale :: "(string \<rightharpoonup> string) \<Rightarrow> string \<Rightarrow> string" where
  "get_locale loc key = (case loc (lower key) of Some v \<Rightarrow> v | None \<Rightarrow> ''?'')"

text \<open>
  A lookup against the table that \<open>reload\<close> builds from a source array: the exception of
  the construction, or the string \<open>get_locale\<close> returns.
\<close>

definition lookup_locale :: "string list \<Rightarrow> string \<Rightarrow> error + string" where
  "lookup_locale raw_locale key =
     (case build_locale Map.empty raw_locale of
        Inl e \<Rightarrow> Inl e
      | Inr loc \<Rightarrow> Inr (get_locale loc key))"

section \<open>Text primitives used by the enum parser\<close>

text \<open>\<open>str.split(sep)\<close> for a non-empty separator: occurrences are taken left to right,
  without overlap; the result always has at least one element.\<close>

fun split_acc :: "string \<Rightarrow> string \<Rightarrow> string \<Rightarrow> string list" where
  "split_acc sep acc [] = [rev acc]"
| "split_acc sep acc (c # cs) =
     (if sep \<noteq> [] \<and> take (length sep) (c # cs) = sep
      then rev acc # split_acc sep [] (drop (length sep - 1) cs)
      else split_acc sep (c # acc) cs)"

definition split :: "string \<Rightarrow> string \<Rightarrow> string list" where
  "split s sep = split_acc sep [] s"

text \<open>\<open>xs[i]\<close> for a non-negative index.\<close>

definition item :: "'a list \<Rightarrow> nat \<Rightarrow> error + 'a" where
  "item xs i = (if i < length xs then Inr (xs ! i) else Inl IndexError)"

text \<open>\<open>int(s)\<close> in base ten: surrounding whitespace (space, tab, line feed, vertical
  tab, form feed, carriage return) is dropped, one sign is allowed, the digits may be
  separated by single underscores; anything else raises \<open>ValueError\<close>. The separators
  \<open>0x1C\<close> to \<open>0x1F\<close> are no whitespace for \<open>int\<close>, and a literal of more than 4300
  digits (underscores not counted) raises \<open>ValueError\<close> too: the interpreter's default
  limit on the conversion of strings to integers.\<close>

definition is_space :: "char \<Rightarrow> bool" where
  "is_space c = (c \<in> set [CHR '' '', CHR 0x09, CHR 0x0A, CHR 0x0B, CHR 0x0C, CHR 0x0D])"

definition strip :: "string \<Rightarrow> string" where
  "strip s = rev (dropWhile is_space (rev (dropWhile is_space s)))"

definition digit_val :: "char \<Rightarrow> nat option" where
  "digit_val c = map_of (zip ''0123456789'' [0, 1, 2, 3, 4, 5, 6, 7, 8, 9]) c"

fun digits_from :: "nat \<Rightarrow> string \<Rightarrow> nat option" where
  "digits_from acc [] = Some acc"
| "digits_from acc [c] =
     (case digit_val c of None \<Rightarrow> None | Some v \<Rightarrow> Some (acc * 10 + v))"
| "digits_from acc (c # d # ds) =
     (if c = CHR ''_''
      then (case digit_val d of None \<Rightarrow> None | Some v \<Rightarrow> digits_from (acc * 10 + v) ds)
      else (case digit_val c of None \<Rightarrow> None | Some v \<Rightarrow> digits_from (acc * 10 + v) (d # ds)))"

definition py_digits :: "string \<Rightarrow> nat option" where
  "py_digits s =
     (if drop 4300 (filter (\<lambda>c. c \<noteq> CHR ''_'') s) \<noteq> [] then None
      else (case s of
              [] \<Rightarrow> None
            | c # cs \<Rightarrow> (case digit_val c of None \<Rightarrow> None | Some v \<Rightarrow> digits_from v cs)))"

definition py_int :: "string \<Rightarrow> error + int" where
  "py_int s =
     (case strip s of
        [] \<Rightarrow> Inl ValueError
      | c # cs \<Rightarrow>
          (if c = CHR ''-'' then (case py_digits cs of None \<Rightarrow> Inl ValueError | Some n \<Rightarrow> Inr (- int n))
           else if c = CHR ''+'' then (case py_digits cs of None \<Rightarrow> Inl ValueError | Some n \<Rightarrow> Inr (int n))
           else (case py_digits (c # cs) of None \<Rightarrow> Inl ValueError | Some n \<Rightarrow> Inr (int n))))"

text \<open>
  \<open>re.findall(f"enum {enum} " + r"{[^}]*}", self.raw_protos, re.IGNORECASE)\<close>.
  The enum name is spliced into the pattern unescaped. The names this module resolves
  (\<open>Form\<close>, \<open>HoloPokemonId\<close>, ...) are identifiers, and for a name made of letters,
  digits and underscores the pattern is the literal text \<open>enum NAME {\<close> followed by
  any characters but a closing brace, and a closing brace. The matcher below is the
  regular expression for such names, on ASCII text. A name with a metacharacter of the
  pattern language is outside of it: \<open>F.rm\<close> finds the block of \<open>Form\<close>, and \<open>Form)\<close>
  makes \<open>re.findall\<close> raise \<open>re.error\<close>.
\<close>

definition match_at :: "string \<Rightarrow> string \<Rightarrow> string option" where
  "match_at name text =
     (let p = ''enum '' @ name @ '' {'' in
      if length p \<le> length text \<and> lower (take (length p) text) = lower p
      then (let rest = drop (length p) text;
                body = takeWhile (\<lambda>c. c \<noteq> CHR ''}'') rest
            in if length body < length rest
               then Some (take (length p) text @ body @ ''}'')
               else None)
      else None)"

text \<open>The scan of \<open>findall\<close>: leftmost match first, the search resumes after each match
  (\<open>skip\<close> counts the characters of the last match still to pass).\<close>

fun findall_from :: "string \<Rightarrow> nat \<Rightarrow> string \<Rightarrow> string list" where
  "findall_from name skip [] = []"
| "findall_from name (Suc n) (c # cs) = findall_from name n cs"
| "findall_from name 0 (c # cs) =
     (case match_at name (c # cs) of
        Some m \<Rightarrow> m # findall_from name (length m - 1) cs
      | None \<Rightarrow> findall_from name 0 cs)"

definition findall_enum :: "string \<Rightarrow> string \<Rightarrow> string list" where
  "findall_enum name text = findall_from name 0 text"

section \<open>The catalog object and the enum index\<close>

text \<open>A Python dict that keeps insertion order: assigning to a key that is present
  replaces its value in place, a new key goes to the end.\<close>

fun dict_set :: "'k \<Rightarrow> 'v \<Rightarrow> ('k \<times> 'v) list \<Rightarrow> ('k \<times> 'v) list" where
  "dict_set k v [] = [(k, v)]"
| "dict_set k v ((k', v') # kvs) =
     (if k = k' then (k, v) # kvs else (k', v') # dict_set k v kvs)"

text \<open>The fields of \<open>PogoData\<close> that \<open>reload\<close>, \<open>get_locale\<close> and \<open>get_enum\<close> read
  and write (\<open>locale_dict\<close> is \<open>self.locale\<close>).\<close>

record pogodata =
  cached_enums :: "string \<rightharpoonup> (string \<times> int) list"
  icon_url :: string
  raw_protos :: string
  locale_dict :: "string \<rightharpoonup> string"

text \<open>What \<open>get_enum\<close> returns: the mapping of the block, or its inversion.\<close>

datatype enum_map =
    Forward "(string \<times> int) list"
  | Reversed "(int \<times> string) list"

text \<open>
  The loop over the lines of the block body:
  \<^verbatim>\<open>
  for entry in proto.split("\n"):
      k = entry.split(" =")[0]
      v = int(entry.split("= ")[1].split(";")[0])
      final[k] = v
  \<close>
\<close>

fun parse_entries :: "(string \<times> int) list \<Rightarrow> string list \<Rightarrow> error + (string \<times> int) list" where
  "parse_entries final [] = Inr final"
| "parse_entries final (entry # entries) =
     (let k = hd (split entry '' ='') in
      case item (split entry ''= '') 1 of
        Inl e \<Rightarrow> Inl e
      | Inr t \<Rightarrow>
          (case py_int (hd (split t '';'')) of
             Inl e \<Rightarrow> Inl e
           | Inr v \<Rightarrow> parse_entries (dict_set k v final) entries))"

text \<open>\<open>proto[0].replace("\t", "")\<close>, then
  \<open>proto.split("{\n")[1].split("\n}")[0]\<close>, then the loop.\<close>

definition parse_block :: "string \<Rightarrow> error + (string \<times> int) list" where
  "parse_block m =
     (let proto = filter (\<lambda>c. c \<noteq> CHR 0x09) m in
      case item (split proto [CHR ''{'', CHR 0x0A]) 1 of
        Inl e \<Rightarrow> Inl e
      | Inr t \<Rightarrow> parse_entries [] (split (hd (split t [CHR 0x0A, CHR ''}''])) [CHR 0x0A]))"

text \<open>\<open>{value: key for key, value in final.items()}\<close>\<close>

definition invert :: "(string \<times> int) list \<Rightarrow> (int \<times> string) list" where
  "invert final = fold (\<lambda>(key, value) acc. dict_set value key acc) final []"

text \<open>
  \<open>get_enum(self, enum, reverse=False)\<close>. The result is paired with the object after
  the call; an exception leaves the object as it was. \<open>if cached:\<close> is true for a
  cached mapping that is not empty.
\<close>

definition get_enum :: "pogodata \<Rightarrow> string \<Rightarrow> bool \<Rightarrow> (error + enum_map) \<times> pogodata" where
  "get_enum self enum reverse =
     (case cached_enums self (lower enum) of
        Some (kv # kvs) \<Rightarrow> (Inr (Forward (kv # kvs)), self)
      | _ \<Rightarrow>
          (case findall_enum enum (raw_protos self) of
             [] \<Rightarrow> (Inl (KeyError (''Could not find Enum '' @ enum)), self)
           | m # ms \<Rightarrow>
               (case parse_block m of
                  Inl e \<Rightarrow> (Inl e, self)
                | Inr final \<Rightarrow>
                    (Inr (if reverse then Reversed (invert final) else Forward final),
                     self\<lparr>cached_enums := (cached_enums self)(lower enum \<mapsto> final)\<rparr>))))"

text \<open>A sequence of \<open>get_enum\<close> calls on one object, whatever they return.\<close>

fun resolve_all :: "pogodata \<Rightarrow> (string \<times> bool) list \<Rightarrow> pogodata" where
  "resolve_all self [] = self"
| "resolve_all self ((enum, reverse) # calls) = resolve_all (snd (get_enum self enum reverse)) calls"

text \<open>A sequence of \<open>get_enum\<close> calls that stops at the first exception, as the body of
  \<open>reload\<close> does.\<close>

fun require_all :: "pogodata \<Rightarrow> string list \<Rightarrow> error + pogodata" where
  "require_all self [] = Inr self"
| "require_all self (enum # enums) =
     (case get_enum self enum False of
        (Inl e, _) \<Rightarrow> Inl e
      | (Inr _, self') \<Rightarrow> require_all self' enums)"

text \<open>
  \<open>reload\<close>, as far as the protocol text, the locale table and the enum cache go.
  The three downloads are the arguments \<open>protos\<close> and \<open>raw_locale\<close> (the game master is
  used by the list builders only). After the locale loop the four list factories run,
  which live in other modules and reach the enum cache through \<open>get_enum\<close> only:
  \<open>factory_enums\<close> are the names they ask for. Then \<open>__make_mon_list\<close> resolves
  \<open>Form\<close>, \<open>HoloTemporaryEvolutionId\<close>, \<open>HoloPokemonId\<close> and \<open>Form\<close> again
  (lines 161 to 163 and 202). No line of \<open>reload\<close> assigns \<open>__cached_enums\<close>.
\<close>

definition reload :: "string \<Rightarrow> string list \<Rightarrow> string list \<Rightarrow> pogodata \<Rightarrow> error + pogodata" where
  "reload protos raw_locale factory_enums self =
     (case build_locale Map.empty raw_locale of
        Inl e \<Rightarrow> Inl e
      | Inr loc \<Rightarrow>
          require_all (self\<lparr>raw_protos := protos, locale_dict := loc\<rparr>)
            (factory_enums @ [''Form'', ''HoloTemporaryEvolutionId'', ''HoloPokemonId'', ''Form'']))"

text \<open>\<open>__init__\<close>: an empty cache, the icon URL, and a first \<open>reload\<close>.\<close>

definition init :: "string \<Rightarrow> string \<Rightarrow> string list \<Rightarrow> string list \<Rightarrow> error + pogodata" where
  "init url protos raw_locale factory_enums =
     reload protos raw_locale factory_enums
       \<lparr>cached_enums = Map.empty, icon_url = url, raw_protos = [], locale_dict = Map.empty\<rparr>"

text \<open>The object as \<open>__init__\<close> has it before its first \<open>reload\<close>, holding a given
  protocol text: the starting point of the examples below.\<close>
definition with_protos :: "string \<Rightarrow> pogodata" where
  "with_protos protos =
     \<lparr>cached_enums = Map.empty, icon_url = [], raw_protos = protos, locale_dict = Map.empty\<rparr>"

text \<open>The protocol text of the spec's scenario, and two protocol texts that differ in the
  value of one \<open>Form\<close> key only.\<close>

definition form_protos :: string where
  "form_protos =
     ''enum Form {'' @ [CHR 0x0A] @ ''PIKACHU_NORMAL = 0;'' @ [CHR 0x0A] @
     ''PIKACHU_COSPLAY = 1;'' @ [CHR 0x0A] @ ''}''"

definition protos_v1 :: string where
  "protos_v1 =
     ''enum Form {'' @ [CHR 0x0A, CHR 0x09] @ ''A = 1;'' @ [CHR 0x0A] @ ''}'' @ [CHR 0x0A] @
     ''enum HoloTemporaryEvolutionId {'' @ [CHR 0x0A, CHR 0x09] @ ''MEGA = 1;'' @ [CHR 0x0A] @ ''}'' @ [CHR 0x0A] @
     ''enum HoloPokemonId {'' @ [CHR 0x0A, CHR 0x09] @ ''PIKACHU = 25;'' @ [CHR 0x0A] @ ''}'' @ [CHR 0x0A]"

definition protos_v2 :: string where
  "protos_v2 =
     ''enum Form {'' @ [CHR 0x0A, CHR 0x09] @ ''A = 2;'' @ [CHR 0x0A] @ ''}'' @ [CHR 0x0A] @
     ''enum HoloTemporaryEvolutionId {'' @ [CHR 0x0A, CHR 0x09] @ ''MEGA = 1;'' @ [CHR 0x0A] @ ''}'' @ [CHR 0x0A] @
     ''enum HoloPokemonId {'' @ [CHR 0x0A, CHR 0x09] @ ''PIKACHU = 25;'' @ [CHR 0x0A] @ ''}'' @ [CHR 0x0A]"

text \<open>A catalog built from the first text, then reloaded with the second; the result of
  resolving an enum in the catalog, and the protocol text the catalog holds.\<close>

definition first_generation :: "error + pogodata" where
  "first_generation = init [] protos_v1 [] []"

definition second_generation :: "error + pogodata" where
  "second_generation =
     (case first_generation of Inl e \<Rightarrow> Inl e | Inr self \<Rightarrow> reload protos_v2 [] [] self)"

definition resolve_in :: "error + pogodata \<Rightarrow> string \<Rightarrow> error + enum_map" where
  "resolve_in catalog enum =
     (case catalog of Inl e \<Rightarrow> Inl e | Inr self \<Rightarrow> fst (get_enum self enum False))"

definition protos_in :: "error + pogodata \<Rightarrow> error + string" where
  "protos_in catalog = (case catalog of Inl e \<Rightarrow> Inl e | Inr self \<Rightarrow> Inr (raw_protos self))"

text \<open>A protocol text that has no \<open>Form\<close> block any more, and the catalog of the first
  text reloaded with it.\<close>

definition protos_no_form :: string where
  "protos_no_form =
     ''enum HoloPokemonId {'' @ [CHR 0x0A, CHR 0x09] @ ''PIKACHU = 25;'' @ [CHR 0x0A] @ ''}'' @ [CHR 0x0A]"

definition reloaded_without_form :: "error + pogodata" where
  "reloaded_without_form =
     (case first_generation of Inl e \<Rightarrow> Inl e | Inr self \<Rightarrow> reload protos_no_form [] [] self)"

section \<open>JSON payloads and attribute values\<close>

text \<open>
  The values of the game master and of the attributes of the catalog's objects:
  \<open>None\<close>, booleans, integers, strings, lists, and dicts with string keys in insertion
  order (keys are distinct). Floating-point numbers are left out; nothing below computes
  with a number of the payload.
\<close>

datatype pyval =
    PNone
  | PBool bool
  | PInt int
  | PStr string
  | PList "pyval list"
  | PDict "(string \<times> pyval) list"

text \<open>Python's \<open>==\<close>: \<open>True == 1\<close> and \<open>False == 0\<close>, lists compare element by element,
  dicts compare key by key whatever the order.\<close>

function (sequential) py_eq :: "pyval \<Rightarrow> pyval \<Rightarrow> bool" where
  "py_eq PNone PNone = True"
| "py_eq (PBool a) (PBool b) = (a = b)"
| "py_eq (PBool a) (PInt j) = ((if a then 1 else 0) = j)"
| "py_eq (PInt i) (PBool b) = (i = (if b then 1 else 0))"
| "py_eq (PInt i) (PInt j) = (i = j)"
| "py_eq (PStr s) (PStr t) = (s = t)"
| "py_eq (PList xs) (PList ys) =
     (length xs = length ys \<and> list_all (\<lambda>(x, y). py_eq x y) (zip xs ys))"
| "py_eq (PDict xs) (PDict ys) =
     (length xs = length ys \<and>
      list_all (\<lambda>(k, v). list_ex (\<lambda>(k', w). k = k' \<and> py_eq v w) ys) xs)"
| "py_eq _ _ = False"
  by pat_completeness auto

lemma size_zip_left:
  "(x, y) \<in> set (zip xs ys) \<Longrightarrow> size x < Suc (size_list size xs)"
proof (induction xs arbitrary: ys)
  case Nil
  then show ?case by simp
next
  case (Cons a xs)
  then show ?case by (cases ys) (auto dest: Cons.IH)
qed

lemma size_dict_value:
  "(k, v) \<in> set kvs \<Longrightarrow> size v < Suc (size_list (size_prod (\<lambda>x. 0) size) kvs)"
  by (induction kvs) auto

termination py_eq
  by (relation "measure (\<lambda>(a, b). size a)") (auto dest: size_zip_left size_dict_value)

text \<open>The truth value of a value in \<open>if x:\<close>.\<close>

fun truthy :: "pyval \<Rightarrow> bool" where
  "truthy PNone = False"
| "truthy (PBool b) = b"
| "truthy (PInt i) = (i \<noteq> 0)"
| "truthy (PStr s) = (s \<noteq> [])"
| "truthy (PList xs) = (xs \<noteq> [])"
| "truthy (PDict kvs) = (kvs \<noteq> [])"

text \<open>\<open>d.get(key, default)\<close> on a dict.\<close>

definition dict_get :: "(string \<times> 'v) list \<Rightarrow> string \<Rightarrow> 'v \<Rightarrow> 'v" where
  "dict_get d key dflt = (case map_of d key of Some v \<Rightarrow> v | None \<Rightarrow> dflt)"

text \<open>The substring test \<open>sub in s\<close> on strings.\<close>

definition contains :: "string \<Rightarrow> string \<Rightarrow> bool" where
  "contains s sub = list_ex (\<lambda>i. take (length sub) (drop i s) = sub) [0..<Suc (length s)]"

section \<open>The record source\<close>

text \<open>
  \<open>get_gamemaster(self, pattern, settings=None)\<close>.
  \<open>re.search\<close> belongs to the standard library: \<open>re_compile pattern\<close> is \<open>None\<close> for a
  pattern the library rejects (\<open>re.error\<close>, here \<open>ReError\<close>), and otherwise the
  predicate "the pattern matches somewhere in the string". A record that is no dict has no
  \<open>get\<close> (\<open>AttributeError\<close>); a \<open>templateId\<close> that is no string makes \<open>re.search\<close>
  raise \<open>TypeError\<close>. \<open>settings\<close> is \<open>None\<close> or a string; \<open>if settings:\<close> holds for a
  non-empty string.
\<close>

fun get_gamemaster ::
  "(string \<Rightarrow> (string \<Rightarrow> bool) option) \<Rightarrow> pyval list \<Rightarrow> string \<Rightarrow> string option
     \<Rightarrow> error + (string \<times> pyval) list" where
  "get_gamemaster re_compile [] pattern settings = Inr []"
| "get_gamemaster re_compile (entry # raw_gamemaster) pattern settings =
     (case entry of
        PDict kvs \<Rightarrow>
          (case re_compile pattern of
             None \<Rightarrow> Inl ReError
           | Some search \<Rightarrow>
               (case dict_get kvs ''templateId'' (PStr []) of
                  PStr templateid \<Rightarrow>
                    (if search templateid
                     then (let data = dict_get kvs ''data'' (PDict []) in
                           case (case settings of
                                   None \<Rightarrow> Inr data
                                 | Some key \<Rightarrow>
                                     (if key = [] then Inr data
                                      else (case data of
                                              PDict payload \<Rightarrow> Inr (dict_get payload key (PDict []))
                                            | _ \<Rightarrow> Inl AttributeError))) of
                             Inl e \<Rightarrow> Inl e
                           | Inr data' \<Rightarrow>
                               (case get_gamemaster re_compile raw_gamemaster pattern settings of
                                  Inl e \<Rightarrow> Inl e
                                | Inr result \<Rightarrow> Inr ((templateid, data') # result)))
                     else get_gamemaster re_compile raw_gamemaster pattern settings)
                | _ \<Rightarrow> Inl TypeError))
      | _ \<Rightarrow> Inl AttributeError)"

text \<open>
  The selection in the spec's words, to compare \<open>get_gamemaster\<close> with. A record of the
  settings dump is a dict whose \<open>templateId\<close>, when present, is a string and whose
  \<open>data\<close>, when present, is a dict (\<open>record_ok\<close>); a missing \<open>templateId\<close> counts as
  the empty string and a missing \<open>data\<close> as the empty dict. \<open>select_spec\<close> keeps the
  records whose template matches, in their order, and yields for each the template and
  the payload, or the payload's value at the subkey (the empty dict when absent).
\<close>
fun record_ok :: "pyval \<Rightarrow> bool" where
  "record_ok (PDict kvs) =
     ((case map_of kvs ''templateId'' of None \<Rightarrow> True | Some (PStr t) \<Rightarrow> True | Some _ \<Rightarrow> False) \<and>
      (case map_of kvs ''data'' of None \<Rightarrow> True | Some (PDict d) \<Rightarrow> True | Some _ \<Rightarrow> False))"
| "record_ok _ = False"

fun template_id :: "pyval \<Rightarrow> string" where
  "template_id (PDict kvs) = (case map_of kvs ''templateId'' of Some (PStr t) \<Rightarrow> t | _ \<Rightarrow> [])"
| "template_id _ = []"

fun payload :: "pyval \<Rightarrow> (string \<times> pyval) list" where
  "payload (PDict kvs) = (case map_of kvs ''data'' of Some (PDict d) \<Rightarrow> d | _ \<Rightarrow> [])"
| "payload _ = []"

definition selected :: "string option \<Rightarrow> pyval \<Rightarrow> pyval" where
  "selected settings entry =
     (case settings of
        None \<Rightarrow> PDict (payload entry)
      | Some key \<Rightarrow> dict_get (payload entry) key (PDict []))"

definition select_spec :: "(string \<Rightarrow> bool) \<Rightarrow> pyval list \<Rightarrow> string option \<Rightarrow> (string \<times> pyval) list" where
  "select_spec search records settings =
     map (\<lambda>entry. (template_id entry, selected settings entry))
       (filter (\<lambda>entry. search (template_id entry)) records)"

text \<open>For a pattern with no metacharacter \<open>re.search\<close> is the substring test;
  three records to try it on.\<close>

definition literal_search :: "string \<Rightarrow> (string \<Rightarrow> bool) option" where
  "literal_search pattern = Some (\<lambda>s. contains s pattern)"

definition sample_records :: "pyval list" where
  "sample_records =
     [PDict [(''templateId'', PStr ''V0025_POKEMON_PIKACHU''),
             (''data'', PDict [(''pokemonSettings'', PDict [(''type'', PStr ''POKEMON_TYPE_ELECTRIC'')])])],
      PDict [(''templateId'', PStr ''ITEM_POTION''), (''data'', PDict [])],
      PDict [(''templateId'', PStr ''V0026_POKEMON_RAICHU''), (''data'', PDict [(''other'', PInt 1)])]]"

section \<open>The query index\<close>

text \<open>
  An object of the catalog is seen through its \<open>__dict__\<close>, the attributes that hold
  plain data (\<open>template\<close>, \<open>id\<close>, \<open>form\<close>, \<open>costume\<close>, \<open>raw\<close>, ...). A reference to
  an object of a list is its position in the list. \<open>__get_object\<close> returns a reference
  (\<open>Found\<close>), \<open>None\<close> (\<open>NotFound\<close>) or, with \<open>match_one=False\<close>, the list \<open>final\<close>.
\<close>

type_synonym attrs = "(string \<times> pyval) list"

datatype found = Found nat | NotFound | Matches "nat list"

text \<open>The inner loop: \<open>wanted\<close> stays true when no criterion differs from the attribute
  (\<open>obj.__dict__.get(key) != value\<close>).\<close>

definition wanted :: "attrs \<Rightarrow> attrs \<Rightarrow> bool" where
  "wanted obj args = list_all (\<lambda>(key, value). py_eq (dict_get obj key PNone) value) args"

fun get_object_from :: "nat \<Rightarrow> nat list \<Rightarrow> attrs list \<Rightarrow> attrs \<Rightarrow> bool \<Rightarrow> found" where
  "get_object_from i final [] args match_one =
     (if \<not> match_one then Matches final else NotFound)"
| "get_object_from i final (obj # obj_list) args match_one =
     (if wanted obj args
      then (if match_one then Found i
            else get_object_from (Suc i) (final @ [i]) obj_list args match_one)
      else get_object_from (Suc i) final obj_list args match_one)"

definition get_object :: "attrs list \<Rightarrow> attrs \<Rightarrow> bool \<Rightarrow> found" where
  "get_object obj_list args match_one = get_object_from 0 [] obj_list args match_one"

text \<open>A creature: its \<open>__dict__\<close> of plain data and the references of
  \<open>evolutions\<close> (each what \<open>get_mon\<close> returned: a creature of \<open>self.mons\<close> or \<open>None\<close>).\<close>

record pokemon =
  attrs :: attrs
  evolutions :: "found list"

text \<open>What \<open>get_mon\<close> returns: what \<open>__get_object\<close> found in \<open>self.mons\<close>, or a new
  object, the copy of a creature.\<close>

datatype mon_result = Existing found | Copied pokemon

text \<open>\<open>args.get("costume", 0) > 0\<close>: an order comparison of a number with \<open>0\<close>;
  \<open>None\<close>, strings, lists and dicts raise \<open>TypeError\<close>.\<close>

fun greater_zero :: "pyval \<Rightarrow> error + bool" where
  "greater_zero (PInt i) = Inr (0 < i)"
| "greater_zero (PBool b) = Inr b"
| "greater_zero _ = Inl TypeError"

text \<open>
  \<open>get_mon(self, get_one=True, **args)\<close>. \<open>args\<close>, the costume criterion included,
  goes to \<open>__get_object\<close> as it is. \<open>Pokemon.copy\<close> is a deep copy: the copy of a value
  is the value. \<open>Pokemon._gen_asset\<close> is defined in another module and is the argument
  \<open>gen_asset\<close>. \<open>None\<close> has no \<open>copy\<close>, and the copy of the list \<open>final\<close> takes no
  attribute \<open>costume\<close>: both raise \<open>AttributeError\<close>.
\<close>

definition get_mon ::
  "(pokemon \<Rightarrow> pokemon) \<Rightarrow> pokemon list \<Rightarrow> bool \<Rightarrow> attrs \<Rightarrow> error + mon_result" where
  "get_mon gen_asset mons get_one args =
     (let mon = get_object (map attrs mons) args get_one in
      case greater_zero (dict_get args ''costume'' (PInt 0)) of
        Inl e \<Rightarrow> Inl e
      | Inr False \<Rightarrow> Inr (Existing mon)
      | Inr True \<Rightarrow>
          (case mon of
             Found i \<Rightarrow>
               Inr (Copied (gen_asset
                 ((mons ! i)\<lparr>attrs := dict_set ''costume'' (dict_get args ''costume'' PNone)
                                          (attrs (mons ! i))\<rparr>)))
           | _ \<Rightarrow> Inl AttributeError))"

text \<open>\<open>get_type\<close>: a \<open>template\<close> criterion that does not start with
  \<open>POKEMON_TYPE_\<close> gets the prefix; a criterion that is no string has no
  \<open>startswith\<close>.\<close>

definition startswith :: "string \<Rightarrow> string \<Rightarrow> bool" where
  "startswith s p = (take (length p) s = p)"

definition get_type :: "attrs list \<Rightarrow> attrs \<Rightarrow> error + found" where
  "get_type types args =
     (case map_of args ''template'' of
        None \<Rightarrow> Inr (get_object types args True)
      | Some (PStr t) \<Rightarrow>
          (if \<not> startswith t ''POKEMON_TYPE_''
           then Inr (get_object types (dict_set ''template'' (PStr (''POKEMON_TYPE_'' @ t)) args) True)
           else Inr (get_object types args True))
      | Some _ \<Rightarrow> Inl AttributeError)"

definition get_item :: "attrs list \<Rightarrow> attrs \<Rightarrow> found" where
  "get_item items args = get_object items args True"

definition get_move :: "attrs list \<Rightarrow> attrs \<Rightarrow> found" where
  "get_move moves args = get_object moves args True"

definition get_grunt :: "attrs list \<Rightarrow> attrs \<Rightarrow> found" where
  "get_grunt grunts args = get_object grunts args True"

text \<open>A creature and a list of types for the examples.\<close>
definition pikachu :: pokemon where
  "pikachu = \<lparr>attrs = [(''template'', PStr ''PIKACHU''), (''costume'', PInt 0)], evolutions = []\<rparr>"

definition fire_types :: "attrs list" where
  "fire_types = [[(''template'', PStr ''POKEMON_TYPE_WATER'')], [(''template'', PStr ''POKEMON_TYPE_FIRE'')]]"

section \<open>Building the creature list\<close>

text \<open>
  \<open>__typing(mon, type1ref, type2ref)\<close> of \<open>__make_mon_list\<close>:
  \<^verbatim>\<open>
  typings = [mon.raw.get(type1ref), mon.raw.get(type2ref)]
  for typing in typings:
      if typing:
          mon.types.append(self.get_type(template=typing))
  \<close>
  \<open>mon_types\<close> is \<open>mon.types\<close> before the call and the result is \<open>mon.types\<close> after it:
  references into \<open>self.types\<close>, or \<open>None\<close> for a template that no type has.
\<close>

fun typing_loop :: "attrs list \<Rightarrow> found list \<Rightarrow> pyval list \<Rightarrow> error + found list" where
  "typing_loop types mon_types [] = Inr mon_types"
| "typing_loop types mon_types (typing # typings) =
     (if truthy typing
      then (case get_type types [(''template'', typing)] of
              Inl e \<Rightarrow> Inl e
            | Inr t \<Rightarrow> typing_loop types (mon_types @ [t]) typings)
      else typing_loop types mon_types typings)"

definition typing :: "attrs list \<Rightarrow> found list \<Rightarrow> pyval \<Rightarrow> string \<Rightarrow> string \<Rightarrow> error + found list" where
  "typing types mon_types raw type1ref type2ref =
     (case raw of
        PDict kvs \<Rightarrow>
          typing_loop types mon_types [dict_get kvs type1ref PNone, dict_get kvs type2ref PNone]
      | _ \<Rightarrow> Inl AttributeError)"

text \<open>
  Pass 1 calls \<open>__typing(mon, "type", "type2")\<close> on the creature it has just constructed
  from the settings record \<open>entry\<close>. The class \<open>Pokemon\<close> is defined in another module:
  its constructor keeps the record as \<open>raw\<close> and starts \<open>types\<close> as the empty list.
\<close>

definition base_types :: "attrs list \<Rightarrow> pyval \<Rightarrow> error + found list" where
  "base_types types entry = typing types [] entry ''type'' ''type2''"

text \<open>A raw type field as the game master has it: absent or \<open>null\<close> (\<open>None\<close>), or a
  string.\<close>

fun str_or_none :: "pyval \<Rightarrow> bool" where
  "str_or_none PNone = True"
| "str_or_none (PStr s) = True"
| "str_or_none _ = False"

text \<open>
  The last loop of \<open>__make_mon_list\<close>, lines 239 to 247.
  \<open>in\<close> is key membership on a dict, the substring test on a string and membership on a
  list; iterating takes the elements of a list, the keys of a dict and the characters of
  a string. \<open>evo_raw.get("form", evo_raw["evolution"])\<close> evaluates its default first:
  \<open>KeyError\<close> when the branch has no \<open>evolution\<close>.
\<close>

fun is_temporary :: "pyval \<Rightarrow> error + bool" where
  "is_temporary (PDict kvs) = Inr (map_of kvs ''temporaryEvolution'' \<noteq> None)"
| "is_temporary (PStr s) = Inr (contains s ''temporaryEvolution'')"
| "is_temporary (PList xs) = Inr (list_ex (\<lambda>x. py_eq x (PStr ''temporaryEvolution'')) xs)"
| "is_temporary _ = Inl TypeError"

fun evolution_target :: "pyval \<Rightarrow> error + pyval" where
  "evolution_target (PDict kvs) =
     (case map_of kvs ''evolution'' of
        None \<Rightarrow> Inl (KeyError ''evolution'')
      | Some d \<Rightarrow> Inr (dict_get kvs ''form'' d))"
| "evolution_target _ = Inl AttributeError"

fun py_iter :: "pyval \<Rightarrow> error + pyval list" where
  "py_iter (PList xs) = Inr xs"
| "py_iter (PDict kvs) = Inr (map (\<lambda>(k, v). PStr k) kvs)"
| "py_iter (PStr s) = Inr (map (\<lambda>c. PStr [c]) s)"
| "py_iter _ = Inl TypeError"

text \<open>The inner loop, for the creature at position \<open>i\<close> of \<open>self.mons\<close>. \<open>get_mon\<close> with
  the single criterion \<open>template\<close> is \<open>__get_object\<close> on \<open>self.mons\<close>.\<close>

fun link_branches :: "pokemon list \<Rightarrow> nat \<Rightarrow> pyval list \<Rightarrow> error + pokemon list" where
  "link_branches mons i [] = Inr mons"
| "link_branches mons i (evo_raw # evos) =
     (case is_temporary evo_raw of
        Inl e \<Rightarrow> Inl e
      | Inr True \<Rightarrow> link_branches mons i evos
      | Inr False \<Rightarrow>
          (case evolution_target evo_raw of
             Inl e \<Rightarrow> Inl e
           | Inr t \<Rightarrow>
               (let evo = get_object (map attrs mons) [(''template'', t)] True in
                link_branches
                  (mons[i := (mons ! i)\<lparr>evolutions := evolutions (mons ! i) @ [evo]\<rparr>])
                  i evos)))"

text \<open>\<open>mon.raw.get("evolutionBranch", [])\<close>: \<open>raw\<close> is an attribute of every creature.\<close>

definition evolution_branch :: "pokemon \<Rightarrow> error + pyval list" where
  "evolution_branch mon =
     (case map_of (attrs mon) ''raw'' of
        Some (PDict kvs) \<Rightarrow> py_iter (dict_get kvs ''evolutionBranch'' (PList []))
      | _ \<Rightarrow> Inl AttributeError)"

fun link_from :: "nat list \<Rightarrow> pokemon list \<Rightarrow> error + pokemon list" where
  "link_from [] mons = Inr mons"
| "link_from (i # rest) mons =
     (case evolution_branch (mons ! i) of
        Inl e \<Rightarrow> Inl e
      | Inr evos \<Rightarrow>
          (case link_branches mons i evos of
             Inl e \<Rightarrow> Inl e
           | Inr mons' \<Rightarrow> link_from rest mons'))"

definition link_evolutions :: "pokemon list \<Rightarrow> error + pokemon list" where
  "link_evolutions mons = link_from [0..<length mons] mons"

text \<open>
  The linking in the spec's words, to compare the loop with. A branch entry is a dict that
  denotes a temporary evolution (it has the key \<open>temporaryEvolution\<close>) or names its
  target under \<open>evolution\<close> (\<open>branch_ok\<close>); a creature's \<open>raw\<close> is a dict whose
  \<open>evolutionBranch\<close>, when present, is a list of such entries (\<open>creature_ok\<close>). The
  target template of an entry is its \<open>form\<close> when it has one, else its \<open>evolution\<close>.
  \<open>expected_links\<close> has, for each entry that is not temporary and in their order, the
  first creature of the catalog with the target template, or \<open>None\<close>.
\<close>
fun branch_ok :: "pyval \<Rightarrow> bool" where
  "branch_ok (PDict kvs) =
     (case map_of kvs ''temporaryEvolution'' of
        Some v \<Rightarrow> True
      | None \<Rightarrow> (case map_of kvs ''evolution'' of Some t \<Rightarrow> True | None \<Rightarrow> False))"
| "branch_ok _ = False"

definition raw_branches :: "pokemon \<Rightarrow> pyval list" where
  "raw_branches mon =
     (case map_of (attrs mon) ''raw'' of
        Some (PDict kvs) \<Rightarrow>
          (case dict_get kvs ''evolutionBranch'' (PList []) of PList bs \<Rightarrow> bs | _ \<Rightarrow> [])
      | _ \<Rightarrow> [])"

definition creature_ok :: "pokemon \<Rightarrow> bool" where
  "creature_ok mon =
     (case map_of (attrs mon) ''raw'' of
        Some (PDict kvs) \<Rightarrow>
          (case dict_get kvs ''evolutionBranch'' (PList []) of
             PList bs \<Rightarrow> list_all branch_ok bs
           | _ \<Rightarrow> False)
      | _ \<Rightarrow> False)"

fun is_temp_branch :: "pyval \<Rightarrow> bool" where
  "is_temp_branch (PDict kvs) = (case map_of kvs ''temporaryEvolution'' of Some v \<Rightarrow> True | None \<Rightarrow> False)"
| "is_temp_branch _ = False"

fun target_of :: "pyval \<Rightarrow> pyval" where
  "target_of (PDict kvs) = dict_get kvs ''form'' (dict_get kvs ''evolution'' PNone)"
| "target_of _ = PNone"

definition expected_links :: "attrs list \<Rightarrow> pyval list \<Rightarrow> found list" where
  "expected_links catalog branches =
     map (\<lambda>b. get_object catalog [(''template'', target_of b)] True)
       (filter (\<lambda>b. \<not> is_temp_branch b) branches)"

text \<open>Three creatures for the examples: \<open>PICHU\<close> evolves into \<open>PIKACHU\<close>; \<open>PIKACHU\<close>
  has a branch with a form-specific target, a temporary evolution and a branch whose
  target no creature has.\<close>

definition pichu :: pokemon where
  "pichu = \<lparr>attrs = [(''template'', PStr ''PICHU''),
                      (''raw'', PDict [(''evolutionBranch'',
                         PList [PDict [(''evolution'', PStr ''PIKACHU'')]])])],
             evolutions = []\<rparr>"

definition pikachu_raw :: pokemon where
  "pikachu_raw = \<lparr>attrs = [(''template'', PStr ''PIKACHU''),
                      (''raw'', PDict [(''evolutionBranch'',
                         PList [PDict [(''evolution'', PStr ''RAICHU''), (''form'', PStr ''RAICHU_NORMAL'')],
                                PDict [(''temporaryEvolution'', PStr ''TEMP_EVOLUTION_MEGA'')],
                                PDict [(''evolution'', PStr ''GOROCHU'')]])])],
             evolutions = []\<rparr>"

definition raichu :: pokemon where
  "raichu = \<lparr>attrs = [(''template'', PStr ''RAICHU_NORMAL''), (''raw'', PDict [])],
              evolutions = []\<rparr>"

section \<open>Locale table: properties\<close>

lemma build_locale_odd:
  "odd (length xs) \<Longrightarrow> build_locale loc xs = Inl IndexError"
  by (induction loc xs rule: build_locale.induct) simp_all

lemma build_locale_even:
  "even (length xs) \<Longrightarrow> \<exists>loc'. build_locale loc xs = Inr loc'"
  by (induction loc xs rule: build_locale.induct) simp_all

text \<open>The table built from an even-length array: the last pair stored under a key wins.\<close>

lemma build_locale_none:
  assumes "build_locale loc xs = Inr loc'"
    and "\<forall>i. 2 * i < length xs \<longrightarrow> xs ! (2 * i) \<noteq> q"
  shows "loc' q = loc q"
  using assms
proof (induction loc xs rule: build_locale.induct)
  case (1 loc)
  then show ?case by simp
next
  case (2 loc k)
  then show ?case by simp
next
  case (3 loc k v rest)
  have k: "k \<noteq> q" using "3.prems"(2) by (auto dest: spec [of _ 0])
  have "\<forall>i. 2 * i < length rest \<longrightarrow> rest ! (2 * i) \<noteq> q"
  proof (intro allI impI)
    fix i assume "2 * i < length rest"
    then have "2 * Suc i < length (k # v # rest)" by simp
    with "3.prems"(2) have "(k # v # rest) ! (2 * Suc i) \<noteq> q" by blast
    then show "rest ! (2 * i) \<noteq> q" by simp
  qed
  moreover have "build_locale (loc(k \<mapsto> v)) rest = Inr loc'"
    using "3.prems"(1) by (simp del: fun_upd_apply)
  ultimately have "loc' q = (loc(k \<mapsto> v)) q" by (rule "3.IH" [rotated])
  with k show ?case by simp
qed

lemma build_locale_last:
  assumes "build_locale loc xs = Inr loc'"
    and "2 * i < length xs" and "xs ! (2 * i) = q"
    and "\<forall>j. i < j \<and> 2 * j < length xs \<longrightarrow> xs ! (2 * j) \<noteq> q"
  shows "loc' q = Some (xs ! (2 * i + 1))"
  using assms
proof (induction loc xs arbitrary: i rule: build_locale.induct)
  case (1 loc)
  then show ?case by simp
next
  case (2 loc k)
  then show ?case by simp
next
  case (3 loc k v rest)
  show ?case
  proof (cases i)
    case 0
    have "\<forall>j. 2 * j < length rest \<longrightarrow> rest ! (2 * j) \<noteq> q"
    proof (intro allI impI)
      fix j assume "2 * j < length rest"
      then have "i < Suc j \<and> 2 * Suc j < length (k # v # rest)" using 0 by simp
      with "3.prems"(4) have "(k # v # rest) ! (2 * Suc j) \<noteq> q" by blast
      then show "rest ! (2 * j) \<noteq> q" by simp
    qed
    with "3.prems"(1) have "loc' q = (loc(k \<mapsto> v)) q"
      using build_locale_none [of "loc(k \<mapsto> v)" rest loc' q] by simp
    with 0 "3.prems"(3) show ?thesis by simp
  next
    case (Suc i')
    have a: "2 * i' < length rest" using "3.prems"(2) Suc by simp
    have b: "rest ! (2 * i') = q" using "3.prems"(3) Suc by simp
    have c: "\<forall>j. i' < j \<and> 2 * j < length rest \<longrightarrow> rest ! (2 * j) \<noteq> q"
    proof (intro allI impI)
      fix j assume "i' < j \<and> 2 * j < length rest"
      then have "i < Suc j \<and> 2 * Suc j < length (k # v # rest)" using Suc by simp
      with "3.prems"(4) have "(k # v # rest) ! (2 * Suc j) \<noteq> q" by blast
      then show "rest ! (2 * j) \<noteq> q" by simp
    qed
    have "build_locale (loc(k \<mapsto> v)) rest = Inr loc'"
      using "3.prems"(1) by (simp del: fun_upd_apply)
    then have "loc' q = Some (rest ! (2 * i' + 1))" using a b c by (rule "3.IH")
    with Suc show ?thesis by simp
  qed
qed

text \<open>
  C4, as the code has it. For an even-length source array the lookup never raises. It
  lower-cases the query key and compares it with the stored keys as they are: the value
  returned is the one after the last stored key equal to the lower-cased query key, and
  \<open>"?"\<close> when no stored key equals it. Two query keys that differ in case only get the
  same answer.
\<close>

theorem lookup_locale_lowered_key:
  assumes "even (length raw_locale)"
  shows "(\<exists>v. lookup_locale raw_locale key = Inr v) \<and>
         ((\<forall>i. 2 * i < length raw_locale \<longrightarrow> raw_locale ! (2 * i) \<noteq> lower key)
            \<longrightarrow> lookup_locale raw_locale key = Inr ''?'') \<and>
         (\<forall>i. 2 * i < length raw_locale \<and> raw_locale ! (2 * i) = lower key \<and>
               (\<forall>j. i < j \<and> 2 * j < length raw_locale \<longrightarrow> raw_locale ! (2 * j) \<noteq> lower key)
            \<longrightarrow> lookup_locale raw_locale key = Inr (raw_locale ! (2 * i + 1))) \<and>
         (\<forall>key'. lower key' = lower key
            \<longrightarrow> lookup_locale raw_locale key' = lookup_locale raw_locale key)"
proof -
  from assms obtain loc where loc: "build_locale Map.empty raw_locale = Inr loc"
    using build_locale_even by blast
  have look: "\<And>k. lookup_locale raw_locale k = Inr (get_locale loc k)"
    by (simp add: lookup_locale_def loc)
  have a: "\<exists>v. lookup_locale raw_locale key = Inr v"
    by (simp add: look)
  have b: "lookup_locale raw_locale key = Inr ''?''"
    if "\<forall>i. 2 * i < length raw_locale \<longrightarrow> raw_locale ! (2 * i) \<noteq> lower key"
  proof -
    have "loc (lower key) = Map.empty (lower key)"
      using loc that by (rule build_locale_none)
    then show ?thesis by (simp add: look get_locale_def)
  qed
  have c: "lookup_locale raw_locale key = Inr (raw_locale ! (2 * i + 1))"
    if "2 * i < length raw_locale \<and> raw_locale ! (2 * i) = lower key \<and>
        (\<forall>j. i < j \<and> 2 * j < length raw_locale \<longrightarrow> raw_locale ! (2 * j) \<noteq> lower key)" for i
  proof -
    have "loc (lower key) = Some (raw_locale ! (2 * i + 1))"
      using loc that by (intro build_locale_last) auto
    then show ?thesis by (simp add: look get_locale_def)
  qed
  have d: "lookup_locale raw_locale key' = lookup_locale raw_locale key"
    if "lower key' = lower key" for key'
    using that by (simp add: look get_locale_def)
  from a b c d show ?thesis by blast
qed

theorem lookup_locale_lowered_key_witness:
  "lookup_locale [''pokemon_name_0025'', ''Pikachu''] ''POKEMON_NAME_0025'' = Inr ''Pikachu'' \<and>
   lookup_locale [''pokemon_name_0025'', ''Pikachu''] ''missing_key'' = Inr ''?''"
proof -
  have low: "lower ''POKEMON_NAME_0025'' = ''pokemon_name_0025''"
    "lower ''missing_key'' = ''missing_key''"
    by (simp_all add: lower_def lower_char_def)
  have ev: "even (length [''pokemon_name_0025'', ''Pikachu''])" by simp
  show ?thesis
    using lookup_locale_lowered_key [OF ev, of "''POKEMON_NAME_0025''"]
      lookup_locale_lowered_key [OF ev, of "''missing_key''"]
    by (simp add: low less_Suc_eq)
qed

text \<open>
  C4 as the spec words it fails where a stored key has an upper-case letter: the stored
  key \<open>Pokemon_Name\<close> equals the query key \<open>pokemon_name\<close> up to case, and the lookup
  returns \<open>"?"\<close>, not the value after it.
\<close>

theorem lookup_locale_stored_case_counterexample:
  "even (length [''Pokemon_Name'', ''Pikachu'']) \<and>
   lower ([''Pokemon_Name'', ''Pikachu''] ! 0) = lower ''pokemon_name'' \<and>
   lookup_locale [''Pokemon_Name'', ''Pikachu''] ''pokemon_name'' = Inr ''?'' \<and>
   lookup_locale [''Pokemon_Name'', ''Pikachu''] ''pokemon_name''
     \<noteq> Inr ([''Pokemon_Name'', ''Pikachu''] ! 1)"
  by (simp add: lookup_locale_def get_locale_def lower_def lower_char_def)

text \<open>
  C8: for a source array of odd length the locale loop of \<open>reload\<close> raises
  (\<open>IndexError\<close>, at the read of the value that is not there), and \<open>reload\<close> passes the
  exception on to its caller; so does \<open>__init__\<close>.
\<close>

theorem reload_odd_locale_raises:
  "odd (length raw_locale) \<Longrightarrow>
     reload protos raw_locale factory_enums self = Inl IndexError \<and>
     init url protos raw_locale factory_enums = Inl IndexError"
  by (simp add: reload_def init_def build_locale_odd)

theorem reload_odd_locale_raises_witness:
  "odd (length [''pokemon_name_0025'', ''Pikachu'', ''pokemon_name_0026'']) \<and>
   reload [] [''pokemon_name_0025'', ''Pikachu'', ''pokemon_name_0026''] []
     \<lparr>cached_enums = Map.empty, icon_url = [], raw_protos = [], locale_dict = Map.empty\<rparr>
     = Inl IndexError"
proof -
  have h: "odd (length [''pokemon_name_0025'', ''Pikachu'', ''pokemon_name_0026''])" by simp
  show ?thesis
    using h reload_odd_locale_raises [OF h, of "[]" "[]"
        "\<lparr>cached_enums = Map.empty, icon_url = [], raw_protos = [], locale_dict = Map.empty\<rparr>"]
    by simp
qed

section \<open>Enum index: properties\<close>

lemma lower_length: "lower n1 = lower n2 \<Longrightarrow> length n1 = length n2"
  unfolding lower_def by (rule map_eq_imp_length_eq)

lemma lower_pattern:
  assumes "lower n1 = lower n2"
  shows "lower (a @ n1 @ b) = lower (a @ n2 @ b)"
  unfolding lower_def map_append using assms unfolding lower_def
  by (rule arg_cong2 [OF refl arg_cong2 [OF _ refl]])

lemma match_at_lower:
  assumes "lower n1 = lower n2"
  shows "match_at n1 s = match_at n2 s"
proof -
  have lp: "length (''enum '' @ n1 @ '' {'') = length (''enum '' @ n2 @ '' {'')"
    using lower_length [OF assms] by simp
  have low: "lower (''enum '' @ n1 @ '' {'') = lower (''enum '' @ n2 @ '' {'')"
    using assms by (rule lower_pattern)
  show ?thesis
    unfolding match_at_def Let_def lp low by (rule refl)
qed

lemma findall_from_lower:
  assumes "lower n1 = lower n2"
  shows "findall_from n1 k s = findall_from n2 k s"
proof (induction s arbitrary: k)
  case Nil
  then show ?case by simp
next
  case (Cons c cs)
  show ?case
  proof (cases k)
    case 0
    then show ?thesis
      by (simp add: match_at_lower [OF assms] Cons.IH split: option.splits)
  next
    case (Suc n)
    then show ?thesis by (simp add: Cons.IH)
  qed
qed

lemma findall_enum_lower:
  "lower n1 = lower n2 \<Longrightarrow> findall_enum n1 s = findall_enum n2 s"
  unfolding findall_enum_def by (rule findall_from_lower)

lemma get_enum_lower:
  assumes "lower n1 = lower n2" and "findall_enum n1 (raw_protos s) \<noteq> []"
  shows "get_enum s n1 r = get_enum s n2 r"
proof -
  have f: "findall_enum n2 (raw_protos s) = findall_enum n1 (raw_protos s)"
    using assms(1) by (rule findall_enum_lower [symmetric])
  obtain m ms where m: "findall_enum n1 (raw_protos s) = m # ms"
    using assms(2) by (cases "findall_enum n1 (raw_protos s)") auto
  show ?thesis
    unfolding get_enum_def f m assms(1) by (simp split: option.splits list.splits)
qed

lemma get_enum_raw_protos: "raw_protos (snd (get_enum s n r)) = raw_protos s"
  by (simp add: get_enum_def split: option.splits list.splits sum.splits)

lemma get_enum_cached_cases:
  assumes "cached_enums (snd (get_enum s n r)) k = Some (kv # kvs)"
  shows "cached_enums s k = Some (kv # kvs) \<or>
         (k = lower n \<and> findall_enum n (raw_protos s) \<noteq> [])"
  using assms
  by (auto simp: get_enum_def split: option.splits list.splits sum.splits if_splits)

lemma get_enum_cache_sound:
  assumes "\<forall>k kv kvs. cached_enums s k = Some (kv # kvs)
             \<longrightarrow> (\<exists>n'. lower n' = k \<and> findall_enum n' (raw_protos s) \<noteq> [])"
  shows "\<forall>k kv kvs. cached_enums (snd (get_enum s n r)) k = Some (kv # kvs)
             \<longrightarrow> (\<exists>n'. lower n' = k \<and> findall_enum n' (raw_protos (snd (get_enum s n r))) \<noteq> [])"
  unfolding get_enum_raw_protos
proof (intro allI impI)
  fix k kv kvs
  assume "cached_enums (snd (get_enum s n r)) k = Some (kv # kvs)"
  then have "cached_enums s k = Some (kv # kvs) \<or>
         (k = lower n \<and> findall_enum n (raw_protos s) \<noteq> [])"
    by (rule get_enum_cached_cases)
  then show "\<exists>n'. lower n' = k \<and> findall_enum n' (raw_protos s) \<noteq> []"
    using assms by blast
qed

lemma resolve_all_raw_protos: "raw_protos (resolve_all s calls) = raw_protos s"
  by (induction s calls rule: resolve_all.induct) (simp_all add: get_enum_raw_protos)

lemma resolve_all_cache_sound:
  assumes "\<forall>k kv kvs. cached_enums s k = Some (kv # kvs)
             \<longrightarrow> (\<exists>n'. lower n' = k \<and> findall_enum n' (raw_protos s) \<noteq> [])"
  shows "\<forall>k kv kvs. cached_enums (resolve_all s calls) k = Some (kv # kvs)
             \<longrightarrow> (\<exists>n'. lower n' = k \<and> findall_enum n' (raw_protos (resolve_all s calls)) \<noteq> [])"
  using assms
proof (induction s calls rule: resolve_all.induct)
  case (1 self)
  then show ?case by simp
next
  case (2 self enum reverse calls)
  have "\<forall>k kv kvs. cached_enums (snd (get_enum self enum reverse)) k = Some (kv # kvs)
          \<longrightarrow> (\<exists>n'. lower n' = k \<and>
                findall_enum n' (raw_protos (snd (get_enum self enum reverse))) \<noteq> [])"
    using "2.prems" by (rule get_enum_cache_sound)
  then have "\<forall>k kv kvs.
       cached_enums (resolve_all (snd (get_enum self enum reverse)) calls) k = Some (kv # kvs)
          \<longrightarrow> (\<exists>n'. lower n' = k \<and>
                findall_enum n' (raw_protos (resolve_all (snd (get_enum self enum reverse)) calls)) \<noteq> [])"
    by (rule "2.IH")
  then show ?case by simp
qed

lemma get_enum_unknown:
  assumes "\<forall>k kv kvs. cached_enums s k = Some (kv # kvs)
             \<longrightarrow> (\<exists>n'. lower n' = k \<and> findall_enum n' (raw_protos s) \<noteq> [])"
    and "findall_enum name (raw_protos s) = []"
  shows "get_enum s name r = (Inl (KeyError (''Could not find Enum '' @ name)), s)"
proof -
  have no: "cached_enums s (lower name) \<noteq> Some (kv # kvs)" for kv kvs
  proof
    assume "cached_enums s (lower name) = Some (kv # kvs)"
    with assms(1) obtain n' where n': "lower n' = lower name"
      and f: "findall_enum n' (raw_protos s) \<noteq> []"
      by blast
    from n' have "findall_enum n' (raw_protos s) = findall_enum name (raw_protos s)"
      by (rule findall_enum_lower)
    with f assms(2) show False by simp
  qed
  show ?thesis
  proof (cases "cached_enums s (lower name)")
    case None
    then show ?thesis by (simp add: get_enum_def assms(2))
  next
    case (Some d)
    with no have "d = []" by (cases d) auto
    with Some show ?thesis by (simp add: get_enum_def assms(2))
  qed
qed

text \<open>
  On an object whose cache was empty at the start and that has served any sequence of
  \<open>get_enum\<close> calls since, with no reload in between, a name with no matching block in
  the protocol text raises \<open>KeyError\<close> and leaves the object as it was, so the next
  call with that name raises again.
\<close>

lemma get_enum_unknown_fresh_cache:
  assumes "cached_enums s0 = Map.empty" and "s = resolve_all s0 calls"
    and "findall_enum name (raw_protos s) = []"
  shows "get_enum s name reverse = (Inl (KeyError (''Could not find Enum '' @ name)), s)"
proof -
  have "\<forall>k kv kvs. cached_enums s0 k = Some (kv # kvs)
          \<longrightarrow> (\<exists>n'. lower n' = k \<and> findall_enum n' (raw_protos s0) \<noteq> [])"
    by (simp add: assms(1))
  then have "\<forall>k kv kvs. cached_enums s k = Some (kv # kvs)
          \<longrightarrow> (\<exists>n'. lower n' = k \<and> findall_enum n' (raw_protos s) \<noteq> [])"
    unfolding assms(2) by (rule resolve_all_cache_sound)
  then show ?thesis
    using assms(3) by (rule get_enum_unknown)
qed

text \<open>
  A reload keeps every cached mapping, whatever the new text says: \<open>get_enum\<close> never
  removes an entry of the cache, and no line of \<open>reload\<close> assigns the cache.
\<close>

lemma get_enum_keeps_cached:
  assumes "cached_enums s k = Some (kv # kvs)"
  shows "cached_enums (snd (get_enum s n r)) k = Some (kv # kvs)"
  using assms by (auto simp: get_enum_def split: option.splits list.splits sum.splits)

lemma require_all_keeps_cached:
  assumes "require_all s enums = Inr s'" and "cached_enums s k = Some (kv # kvs)"
  shows "cached_enums s' k = Some (kv # kvs) \<and> raw_protos s' = raw_protos s"
  using assms
proof (induction enums arbitrary: s)
  case Nil
  then show ?case by simp
next
  case (Cons enum enums)
  obtain res s1 where g: "get_enum s enum False = (res, s1)"
    by (cases "get_enum s enum False")
  from Cons.prems(1) g obtain m where "res = Inr m" and r: "require_all s1 enums = Inr s'"
    by (cases res) auto
  have s1: "s1 = snd (get_enum s enum False)" by (simp add: g)
  have c: "cached_enums s1 k = Some (kv # kvs)"
    unfolding s1 using Cons.prems(2) by (rule get_enum_keeps_cached)
  have p: "raw_protos s1 = raw_protos s"
    unfolding s1 by (rule get_enum_raw_protos)
  from Cons.IH [OF r c] p show ?case by simp
qed

lemma reload_keeps_cached:
  assumes "reload protos raw_locale factory_enums s = Inr s'"
    and "cached_enums s (lower name) = Some (kv # kvs)"
  shows "raw_protos s' = protos \<and> get_enum s' name reverse = (Inr (Forward (kv # kvs)), s')"
proof -
  from assms(1) obtain loc where
    r: "require_all (s\<lparr>raw_protos := protos, locale_dict := loc\<rparr>)
          (factory_enums @ [''Form'', ''HoloTemporaryEvolutionId'', ''HoloPokemonId'', ''Form'']) = Inr s'"
    by (auto simp: reload_def split: sum.splits)
  have c: "cached_enums (s\<lparr>raw_protos := protos, locale_dict := loc\<rparr>) (lower name) = Some (kv # kvs)"
    using assms(2) by simp
  from require_all_keeps_cached [OF r c]
  show ?thesis by (simp add: get_enum_def)
qed

text \<open>
  C7, the failing input. The catalog is built from a text that has a \<open>Form\<close> block and
  reloaded with a text that has none. The reload completes, the object holds the new
  text, in which \<open>re.findall\<close> finds no block for \<open>Form\<close>, and \<open>get_enum("Form")\<close> does
  not raise: it returns at \<open>if cached: return cached\<close> with the mapping of the old
  text. A fresh object on the new text raises \<open>KeyError\<close> for the same name.
\<close>

theorem get_enum_stale_hit_for_missing_block:
  "protos_in reloaded_without_form = Inr protos_no_form \<and>
   findall_enum ''Form'' protos_no_form = [] \<and>
   resolve_in reloaded_without_form ''Form'' = Inr (Forward [(''A'', 1)]) \<and>
   resolve_in (Inr (with_protos protos_no_form)) ''Form''
     = Inl (KeyError ''Could not find Enum Form'')"
  by code_simp

text \<open>
  C2, the failing input. On a fresh object \<open>get_enum("Form", reverse=True)\<close> returns the
  inversion. Once \<open>get_enum("Form")\<close> has filled the cache, the same call returns at
  \<open>if cached: return cached\<close> and hands out the key-to-value mapping, not its inversion.
\<close>

theorem get_enum_reverse_ignored_on_cache_hit:
  "fst (get_enum (with_protos form_protos) ''Form'' True)
     = Inr (Reversed [(0, ''PIKACHU_NORMAL''), (1, ''PIKACHU_COSPLAY'')]) \<and>
   fst (get_enum (snd (get_enum (with_protos form_protos) ''Form'' False)) ''Form'' True)
     = Inr (Forward [(''PIKACHU_NORMAL'', 0), (''PIKACHU_COSPLAY'', 1)])"
  by code_simp

text \<open>
  C5, the failing input. The catalog is built from a text with \<open>A = 1\<close> in \<open>Form\<close> and
  reloaded with a text with \<open>A = 2\<close>. After the reload the object holds the new text,
  and \<open>get_enum("Form")\<close> still returns the mapping parsed from the old one; a fresh
  object on the new text returns \<open>A = 2\<close>.
\<close>

theorem reload_serves_stale_enum:
  "protos_in second_generation = Inr protos_v2 \<and>
   resolve_in second_generation ''Form'' = Inr (Forward [(''A'', 1)]) \<and>
   resolve_in (Inr (with_protos protos_v2)) ''Form'' = Inr (Forward [(''A'', 2)])"
  by code_simp

section \<open>Record source: properties\<close>

lemma get_gamemaster_entry:
  assumes "record_ok entry" and "re_compile pattern = Some search" and "settings \<noteq> Some []"
  shows "get_gamemaster re_compile (entry # rest) pattern settings =
         (if search (template_id entry)
          then (case get_gamemaster re_compile rest pattern settings of
                  Inl e \<Rightarrow> Inl e
                | Inr result \<Rightarrow> Inr ((template_id entry, selected settings entry) # result))
          else get_gamemaster re_compile rest pattern settings)"
proof (cases entry)
  case (PDict kvs)
  show ?thesis
    using assms unfolding PDict
    by (cases settings)
       (auto simp: dict_get_def selected_def Let_def split: option.splits pyval.splits sum.splits)
qed (use assms in auto)

lemma get_gamemaster_empty_subkey:
  "get_gamemaster re_compile raw_gamemaster pattern (Some [])
     = get_gamemaster re_compile raw_gamemaster pattern None"
  by (induction raw_gamemaster) (simp_all split: pyval.splits option.splits sum.splits)

lemma get_gamemaster_nonempty_subkey:
  assumes "list_all record_ok raw_gamemaster"
    and "re_compile pattern = Some search"
    and "settings \<noteq> Some []"
  shows "get_gamemaster re_compile raw_gamemaster pattern settings
           = Inr (select_spec search raw_gamemaster settings)"
  using assms(1)
proof (induction raw_gamemaster)
  case Nil
  then show ?case by (simp add: select_spec_def)
next
  case (Cons entry rest)
  then have ok: "record_ok entry" and IH: "get_gamemaster re_compile rest pattern settings
           = Inr (select_spec search rest settings)"
    by simp_all
  show ?case
    using get_gamemaster_entry [of entry re_compile pattern search settings rest] ok assms(2,3)
    by (simp add: IH select_spec_def)
qed

text \<open>
  C9, as the code has it. For a pattern the library accepts and records that are well
  formed, \<open>get_gamemaster\<close> returns. For a subkey that is \<open>None\<close> or a non-empty string
  it returns exactly the selection of the spec: the matching records in input order, each
  with the whole payload (no subkey) or the payload's value at the subkey, the empty dict
  when the subkey is absent. For the subkey \<open>""\<close> it returns the selection of the spec
  for no subkey: the matching records in input order, each with the whole payload.
\<close>

theorem get_gamemaster_select:
  assumes "list_all record_ok raw_gamemaster"
    and "re_compile pattern = Some search"
  shows "(settings \<noteq> Some [] \<longrightarrow>
            get_gamemaster re_compile raw_gamemaster pattern settings
              = Inr (select_spec search raw_gamemaster settings)) \<and>
         get_gamemaster re_compile raw_gamemaster pattern (Some [])
           = Inr (select_spec search raw_gamemaster None)"
proof (intro conjI impI)
  assume "settings \<noteq> Some []"
  with assms show "get_gamemaster re_compile raw_gamemaster pattern settings
              = Inr (select_spec search raw_gamemaster settings)"
    by (rule get_gamemaster_nonempty_subkey)
next
  have "get_gamemaster re_compile raw_gamemaster pattern None
          = Inr (select_spec search raw_gamemaster None)"
    using assms by (rule get_gamemaster_nonempty_subkey) simp
  then show "get_gamemaster re_compile raw_gamemaster pattern (Some [])
           = Inr (select_spec search raw_gamemaster None)"
    unfolding get_gamemaster_empty_subkey .
qed

theorem get_gamemaster_select_witness:
  "get_gamemaster literal_search sample_records ''_POKEMON_'' (Some ''pokemonSettings'')
     = Inr [(''V0025_POKEMON_PIKACHU'', PDict [(''type'', PStr ''POKEMON_TYPE_ELECTRIC'')]),
            (''V0026_POKEMON_RAICHU'', PDict [])] \<and>
   get_gamemaster literal_search sample_records ''_POKEMON_'' (Some [])
     = Inr [(''V0025_POKEMON_PIKACHU'',
               PDict [(''pokemonSettings'', PDict [(''type'', PStr ''POKEMON_TYPE_ELECTRIC'')])]),
            (''V0026_POKEMON_RAICHU'', PDict [(''other'', PInt 1)])]"
proof -
  have ok: "list_all record_ok sample_records"
    by (simp add: sample_records_def)
  have c: "literal_search ''_POKEMON_'' = Some (\<lambda>s. contains s ''_POKEMON_'')"
    by (simp add: literal_search_def)
  have s: "select_spec (\<lambda>s. contains s ''_POKEMON_'') sample_records (Some ''pokemonSettings'')
     = [(''V0025_POKEMON_PIKACHU'', PDict [(''type'', PStr ''POKEMON_TYPE_ELECTRIC'')]),
            (''V0026_POKEMON_RAICHU'', PDict [])]"
    by code_simp
  have n: "select_spec (\<lambda>s. contains s ''_POKEMON_'') sample_records None
     = [(''V0025_POKEMON_PIKACHU'',
               PDict [(''pokemonSettings'', PDict [(''type'', PStr ''POKEMON_TYPE_ELECTRIC'')])]),
            (''V0026_POKEMON_RAICHU'', PDict [(''other'', PInt 1)])]"
    by code_simp
  show ?thesis
    using get_gamemaster_select [of sample_records literal_search "''_POKEMON_''"
        "\<lambda>s. contains s ''_POKEMON_''" "Some ''pokemonSettings''"] ok c s n
    by simp
qed

text \<open>
  C9 as the spec words it fails for the subkey \<open>""\<close>: \<open>if settings:\<close> is false for the
  empty string, so the whole payload is yielded where the claim has the payload's value
  at the subkey, here the empty dict.
\<close>

theorem get_gamemaster_empty_subkey_counterexample:
  "get_gamemaster literal_search sample_records ''RAICHU'' (Some [])
     = Inr [(''V0026_POKEMON_RAICHU'', PDict [(''other'', PInt 1)])] \<and>
   dict_get [(''other'', PInt 1)] [] (PDict []) = PDict []"
  by code_simp

section \<open>Query index and typing: properties\<close>

lemma map_of_dict_set: "map_of (dict_set k v d) k = Some v"
  by (induction d) auto

lemma startswith_append: "startswith (p @ t) p"
  by (simp add: startswith_def)

text \<open>
  C10. \<open>get_type\<close> with a string \<open>template\<close> criterion that lacks the prefix
  \<open>POKEMON_TYPE_\<close> searches with the prefixed criterion, and so returns what it returns
  for the prefixed criterion; with the prefix, or with no \<open>template\<close> criterion, it
  searches with the criteria as given. \<open>get_item\<close>, \<open>get_move\<close> and \<open>get_grunt\<close> hand
  their criteria to \<open>__get_object\<close> unchanged, and so does \<open>get_mon\<close>.
\<close>

theorem get_type_prefixes_template:
  "(map_of args ''template'' = Some (PStr t) \<and> \<not> startswith t ''POKEMON_TYPE_''
      \<longrightarrow> get_type types args
            = Inr (get_object types (dict_set ''template'' (PStr (''POKEMON_TYPE_'' @ t)) args) True)
        \<and> get_type types args
            = get_type types (dict_set ''template'' (PStr (''POKEMON_TYPE_'' @ t)) args)) \<and>
   (map_of args ''template'' = Some (PStr t) \<and> startswith t ''POKEMON_TYPE_''
      \<longrightarrow> get_type types args = Inr (get_object types args True)) \<and>
   (map_of args ''template'' = None
      \<longrightarrow> get_type types args = Inr (get_object types args True)) \<and>
   get_item items args = get_object items args True \<and>
   get_move moves args = get_object moves args True \<and>
   get_grunt grunts args = get_object grunts args True \<and>
   (greater_zero (dict_get args ''costume'' (PInt 0)) = Inr False
      \<longrightarrow> get_mon gen_asset mons get_one args
            = Inr (Existing (get_object (map attrs mons) args get_one)))"
proof -
  have a: "get_type types args
            = Inr (get_object types (dict_set ''template'' (PStr (''POKEMON_TYPE_'' @ t)) args) True)
        \<and> get_type types args
            = get_type types (dict_set ''template'' (PStr (''POKEMON_TYPE_'' @ t)) args)"
    if "map_of args ''template'' = Some (PStr t) \<and> \<not> startswith t ''POKEMON_TYPE_''"
  proof -
    have 1: "get_type types args
            = Inr (get_object types (dict_set ''template'' (PStr (''POKEMON_TYPE_'' @ t)) args) True)"
      using that by (simp add: get_type_def)
    have 2: "get_type types (dict_set ''template'' (PStr (''POKEMON_TYPE_'' @ t)) args)
            = Inr (get_object types (dict_set ''template'' (PStr (''POKEMON_TYPE_'' @ t)) args) True)"
      unfolding get_type_def map_of_dict_set
      using startswith_append [of "''POKEMON_TYPE_''" t] by simp
    from 1 2 show ?thesis by simp
  qed
  have b: "get_type types args = Inr (get_object types args True)"
    if "map_of args ''template'' = Some (PStr t) \<and> startswith t ''POKEMON_TYPE_''"
    using that by (simp add: get_type_def)
  have c: "get_type types args = Inr (get_object types args True)"
    if "map_of args ''template'' = None"
    using that by (simp add: get_type_def)
  have d: "get_mon gen_asset mons get_one args
            = Inr (Existing (get_object (map attrs mons) args get_one))"
    if "greater_zero (dict_get args ''costume'' (PInt 0)) = Inr False"
    using that by (simp add: get_mon_def)
  have e: "get_item items args = get_object items args True"
    "get_move moves args = get_object moves args True"
    "get_grunt grunts args = get_object grunts args True"
    by (simp_all add: get_item_def get_move_def get_grunt_def)
  from a b c d e show ?thesis by blast
qed

theorem get_type_prefixes_template_witness:
  "get_type fire_types [(''template'', PStr ''FIRE'')] = Inr (Found 1) \<and>
   get_type fire_types [(''template'', PStr ''POKEMON_TYPE_FIRE'')] = Inr (Found 1) \<and>
   get_item fire_types [(''template'', PStr ''FIRE'')] = NotFound"
proof -
  have n: "map_of [(''template'', PStr ''FIRE'')] ''template'' = Some (PStr ''FIRE'') \<and>
           \<not> startswith ''FIRE'' ''POKEMON_TYPE_''"
    by (simp add: startswith_def)
  have g: "get_object fire_types [(''template'', PStr ''POKEMON_TYPE_FIRE'')] True = Found 1"
    "get_object fire_types [(''template'', PStr ''FIRE'')] True = NotFound"
    by (simp_all add: fire_types_def get_object_def wanted_def dict_get_def)
  show ?thesis
    using get_type_prefixes_template [of "[(''template'', PStr ''FIRE'')]" "''FIRE''" fire_types
        fire_types fire_types fire_types id "[]" True] n g
    by (elim conjE) (simp, metis)
qed

lemma get_object_from_none:
  assumes "\<forall>obj \<in> set obj_list. \<not> wanted obj args"
  shows "get_object_from i final obj_list args match_one
           = (if match_one then NotFound else Matches final)"
  using assms by (induction obj_list arbitrary: i final) simp_all

lemma wanted_costume:
  assumes "wanted obj args" and "map_of args ''costume'' = Some c"
  shows "py_eq (dict_get obj ''costume'' PNone) c"
proof -
  have "(''costume'', c) \<in> set args" using assms(2) by (rule map_of_SomeD)
  with assms(1) show ?thesis by (auto simp: wanted_def list_all_iff)
qed

text \<open>
  C1, the failing inputs. \<open>get_mon\<close> passes the costume criterion to \<open>__get_object\<close>
  with the others, so the catalog is filtered by costume: a query with a positive costume
  that no stored creature has finds nothing (\<open>None\<close>, or the empty list), and the copy
  step then raises \<open>AttributeError\<close> instead of returning a copy with the costume set.
\<close>

theorem get_mon_filters_by_costume:
  assumes "greater_zero (dict_get args ''costume'' (PInt 0)) = Inr True"
    and "list_all (\<lambda>mon. \<not> py_eq (dict_get (attrs mon) ''costume'' PNone)
                             (dict_get args ''costume'' (PInt 0))) mons"
  shows "get_object (map attrs mons) args True = NotFound \<and>
         get_object (map attrs mons) args False = Matches [] \<and>
         get_mon gen_asset mons get_one args = Inl AttributeError"
proof -
  obtain c where c: "map_of args ''costume'' = Some c"
    using assms(1) by (cases "map_of args ''costume''") (auto simp: dict_get_def)
  then have dc: "dict_get args ''costume'' (PInt 0) = c" by (simp add: dict_get_def)
  have none: "\<forall>obj \<in> set (map attrs mons). \<not> wanted obj args"
  proof
    fix obj assume "obj \<in> set (map attrs mons)"
    then obtain mon where mon: "mon \<in> set mons" "obj = attrs mon" by auto
    with assms(2) have "\<not> py_eq (dict_get obj ''costume'' PNone) c"
      by (auto simp: list_all_iff dc)
    then show "\<not> wanted obj args" using wanted_costume [OF _ c] by blast
  qed
  have g: "get_object (map attrs mons) args m = (if m then NotFound else Matches [])" for m
    unfolding get_object_def using none by (rule get_object_from_none)
  show ?thesis
    using assms(1) by (cases get_one) (simp_all add: g get_mon_def)
qed

theorem get_mon_filters_by_costume_witness:
  "get_mon id [pikachu] True [(''template'', PStr ''PIKACHU''), (''costume'', PInt 5)]
     = Inl AttributeError \<and>
   get_mon id [pikachu] True [(''template'', PStr ''PIKACHU'')] = Inr (Existing (Found 0))"
proof -
  have 1: "greater_zero (dict_get [(''template'', PStr ''PIKACHU''), (''costume'', PInt 5)]
             ''costume'' (PInt 0)) = Inr True"
    by (simp add: dict_get_def)
  have 2: "list_all (\<lambda>mon. \<not> py_eq (dict_get (attrs mon) ''costume'' PNone)
             (dict_get [(''template'', PStr ''PIKACHU''), (''costume'', PInt 5)] ''costume'' (PInt 0)))
             [pikachu]"
    by (simp add: dict_get_def pikachu_def)
  have 3: "get_mon id [pikachu] True [(''template'', PStr ''PIKACHU'')] = Inr (Existing (Found 0))"
    by (simp add: get_mon_def get_object_def wanted_def dict_get_def pikachu_def)
  show ?thesis
    using get_mon_filters_by_costume [OF 1 2, of id True] 3 by simp
qed

lemma typing_loop_length:
  "typing_loop types mon_types typings = Inr ts \<Longrightarrow>
     length ts = length mon_types + length (filter truthy typings)"
proof (induction typings arbitrary: mon_types)
  case Nil
  then show ?case by simp
next
  case (Cons typing typings)
  show ?case
  proof (cases "truthy typing")
    case True
    with Cons.prems obtain t where "typing_loop types (mon_types @ [t]) typings = Inr ts"
      by (auto split: sum.splits)
    from Cons.IH [OF this] True show ?thesis by simp
  next
    case False
    with Cons.prems have "typing_loop types mon_types typings = Inr ts" by simp
    from Cons.IH [OF this] False show ?thesis by simp
  qed
qed

lemma get_type_str_or_none:
  "str_or_none v \<Longrightarrow> truthy v \<Longrightarrow> \<exists>t. get_type types [(''template'', v)] = Inr t"
  by (cases v) (simp_all add: get_type_def)

lemma typing_loop_returns:
  "list_all str_or_none typings \<Longrightarrow> \<exists>ts. typing_loop types mon_types typings = Inr ts"
proof (induction typings arbitrary: mon_types)
  case Nil
  then show ?case by simp
next
  case (Cons typing typings)
  then have s: "str_or_none typing" and rest: "list_all str_or_none typings" by simp_all
  show ?case
  proof (cases "truthy typing")
    case True
    from get_type_str_or_none [OF s True] obtain t
      where "get_type types [(''template'', typing)] = Inr t" by blast
    with True Cons.IH [OF rest, of "mon_types @ [t]"] show ?thesis by simp
  next
    case False
    with Cons.IH [OF rest, of mon_types] show ?thesis by simp
  qed
qed

text \<open>
  C6, as the code has it. Whenever the typing of a base creature returns, \<open>types\<close> has at
  most two entries. For a record whose two type fields are each absent, \<open>null\<close> or a
  string, it returns, with one entry for each field that is a non-empty string; so when
  the primary type is a non-empty string and the secondary is not the empty string,
  \<open>types\<close> has exactly one entry if and only if the secondary type is absent or \<open>null\<close>.
\<close>

theorem base_types_length:
  "(\<forall>ts. base_types types entry = Inr ts \<longrightarrow> length ts \<le> 2) \<and>
   (str_or_none (dict_get kvs ''type'' PNone) \<and> str_or_none (dict_get kvs ''type2'' PNone)
      \<longrightarrow> (\<exists>ts. base_types types (PDict kvs) = Inr ts \<and>
            length ts = (if truthy (dict_get kvs ''type'' PNone) then 1 else 0)
                      + (if truthy (dict_get kvs ''type2'' PNone) then 1 else 0) \<and>
            (truthy (dict_get kvs ''type'' PNone) \<and> dict_get kvs ''type2'' PNone \<noteq> PStr []
               \<longrightarrow> (length ts = 1 \<longleftrightarrow> dict_get kvs ''type2'' PNone = PNone))))"
proof -
  have a: "length ts \<le> 2" if "base_types types entry = Inr ts" for ts
  proof (cases entry)
    case (PDict d)
    with that have "typing_loop types [] [dict_get d ''type'' PNone, dict_get d ''type2'' PNone]
        = Inr ts"
      by (simp add: base_types_def typing_def)
    from typing_loop_length [OF this] show ?thesis by simp
  qed (use that in \<open>simp_all add: base_types_def typing_def\<close>)
  have b: "\<exists>ts. base_types types (PDict kvs) = Inr ts \<and>
            length ts = (if truthy (dict_get kvs ''type'' PNone) then 1 else 0)
                      + (if truthy (dict_get kvs ''type2'' PNone) then 1 else 0) \<and>
            (truthy (dict_get kvs ''type'' PNone) \<and> dict_get kvs ''type2'' PNone \<noteq> PStr []
               \<longrightarrow> (length ts = 1 \<longleftrightarrow> dict_get kvs ''type2'' PNone = PNone))"
    if h: "str_or_none (dict_get kvs ''type'' PNone) \<and> str_or_none (dict_get kvs ''type2'' PNone)"
  proof -
    from h have "list_all str_or_none [dict_get kvs ''type'' PNone, dict_get kvs ''type2'' PNone]"
      by simp
    from typing_loop_returns [OF this, of types "[]"] obtain ts
      where ts: "typing_loop types [] [dict_get kvs ''type'' PNone, dict_get kvs ''type2'' PNone]
        = Inr ts" by blast
    have len: "length ts = (if truthy (dict_get kvs ''type'' PNone) then 1 else 0)
                      + (if truthy (dict_get kvs ''type2'' PNone) then 1 else 0)"
      using typing_loop_length [OF ts] by simp
    have t2: "truthy (dict_get kvs ''type2'' PNone) \<longleftrightarrow> dict_get kvs ''type2'' PNone \<noteq> PNone"
      if "dict_get kvs ''type2'' PNone \<noteq> PStr []"
      using h that by (cases "dict_get kvs ''type2'' PNone") simp_all
    show ?thesis
      using ts len t2 by (auto simp: base_types_def typing_def)
  qed
  from a b show ?thesis by blast
qed

theorem base_types_length_witness:
  "base_types fire_types (PDict [(''type'', PStr ''POKEMON_TYPE_FIRE'')]) = Inr [Found 1] \<and>
   base_types fire_types (PDict [(''type'', PStr ''FIRE''), (''type2'', PStr ''GHOST'')])
     = Inr [Found 1, NotFound]"
proof -
  have e: "base_types fire_types (PDict [(''type'', PStr ''POKEMON_TYPE_FIRE'')]) = Inr [Found 1]"
    "base_types fire_types (PDict [(''type'', PStr ''FIRE''), (''type2'', PStr ''GHOST'')])
     = Inr [Found 1, NotFound]"
    by code_simp+
  show ?thesis
    using base_types_length [of fire_types "PDict [(''type'', PStr ''POKEMON_TYPE_FIRE'')]"
        "[(''type'', PStr ''POKEMON_TYPE_FIRE'')]"] e
    by simp
qed

text \<open>
  C6 as the spec words it fails for a record with no primary type (the empty payload that
  \<open>get_gamemaster\<close> yields for a record without \<open>pokemonSettings\<close>): \<open>type2\<close> is absent
  and \<open>types\<close> is empty, not of length 1. And a secondary type that is the empty string
  is neither absent nor \<open>null\<close>, yet \<open>types\<close> has length 1.
\<close>

theorem base_types_no_primary_counterexample:
  "base_types fire_types (PDict []) = Inr [] \<and>
   dict_get [] ''type2'' PNone = PNone \<and>
   base_types fire_types (PDict [(''type'', PStr ''FIRE''), (''type2'', PStr [])]) = Inr [Found 1]"
  by code_simp

section \<open>Evolution linking: properties\<close>

lemma map_attrs_update:
  "map attrs (mons[i := (mons ! i)\<lparr>evolutions := es\<rparr>]) = map attrs mons"
  by (cases "i < length mons") (simp_all add: map_update list_update_same_conv list_update_beyond)

lemma branch_step:
  assumes "branch_ok b"
  shows "is_temporary b = Inr (is_temp_branch b)"
    and "\<not> is_temp_branch b \<Longrightarrow> evolution_target b = Inr (target_of b)"
  using assms by (cases b; auto simp: dict_get_def split: option.splits)+

lemma link_branches_ok:
  assumes "i < length mons" and "list_all branch_ok evos"
  shows "link_branches mons i evos
           = Inr (mons[i := (mons ! i)\<lparr>evolutions := evolutions (mons ! i)
                     @ expected_links (map attrs mons) evos\<rparr>])"
  using assms
proof (induction evos arbitrary: mons)
  case Nil
  then show ?case by (simp add: expected_links_def list_update_same_conv)
next
  case (Cons b evos)
  then have b: "branch_ok b" and rest: "list_all branch_ok evos" by simp_all
  show ?case
  proof (cases "is_temp_branch b")
    case True
    then show ?thesis
      using Cons.IH [OF Cons.prems(1) rest] branch_step(1) [OF b]
      by (simp add: expected_links_def)
  next
    case False
    define evo where "evo = get_object (map attrs mons) [(''template'', target_of b)] True"
    define mons1 where "mons1 = mons[i := (mons ! i)\<lparr>evolutions := evolutions (mons ! i) @ [evo]\<rparr>]"
    have len: "i < length mons1" using Cons.prems(1) by (simp add: mons1_def)
    have at: "map attrs mons1 = map attrs mons"
      unfolding mons1_def by (rule map_attrs_update)
    have nth: "mons1 ! i = (mons ! i)\<lparr>evolutions := evolutions (mons ! i) @ [evo]\<rparr>"
      using Cons.prems(1) by (simp add: mons1_def)
    have upd: "mons1[i := x] = mons[i := x]" for x
      by (simp add: mons1_def)
    have step: "link_branches mons i (b # evos) = link_branches mons1 i evos"
      using False branch_step [OF b] by (simp add: Let_def evo_def mons1_def)
    have "link_branches mons1 i evos
           = Inr (mons1[i := (mons1 ! i)\<lparr>evolutions := evolutions (mons1 ! i)
                     @ expected_links (map attrs mons1) evos\<rparr>])"
      using len rest by (rule Cons.IH)
    also have "\<dots> = Inr (mons[i := (mons ! i)\<lparr>evolutions := evolutions (mons ! i)
                     @ expected_links (map attrs mons) (b # evos)\<rparr>])"
      using False by (simp add: at nth upd expected_links_def evo_def)
    finally show ?thesis using step by simp
  qed
qed

lemma evolution_branch_ok:
  "creature_ok mon \<Longrightarrow>
     evolution_branch mon = Inr (raw_branches mon) \<and> list_all branch_ok (raw_branches mon)"
  by (auto simp: creature_ok_def evolution_branch_def raw_branches_def
      split: option.splits pyval.splits)

lemma creature_ok_attrs: "attrs m = attrs m' \<Longrightarrow> creature_ok m = creature_ok m'"
  by (simp add: creature_ok_def)

lemma link_from_ok:
  assumes "distinct idx" and "\<forall>i \<in> set idx. i < length mons"
    and "map attrs mons = catalog" and "list_all creature_ok mons"
  shows "\<exists>mons'. link_from idx mons = Inr mons' \<and> map attrs mons' = catalog \<and>
           (\<forall>i < length mons. evolutions (mons' ! i) =
              (if i \<in> set idx
               then evolutions (mons ! i) @ expected_links catalog (raw_branches (mons ! i))
               else evolutions (mons ! i)))"
  using assms
proof (induction idx arbitrary: mons)
  case Nil
  then show ?case by simp
next
  case (Cons i idx)
  have i: "i < length mons" using Cons.prems(2) by simp
  have oki: "creature_ok (mons ! i)" using Cons.prems(4) i by (simp add: list_all_length)
  define mons1 where "mons1 = mons[i := (mons ! i)\<lparr>evolutions := evolutions (mons ! i)
                     @ expected_links catalog (raw_branches (mons ! i))\<rparr>]"
  have step: "link_branches mons i (raw_branches (mons ! i)) = Inr mons1"
    using link_branches_ok [OF i, of "raw_branches (mons ! i)"] evolution_branch_ok [OF oki]
    by (simp add: mons1_def Cons.prems(3))
  have at: "map attrs mons1 = catalog"
    unfolding mons1_def map_attrs_update by (rule Cons.prems(3))
  have len: "length mons1 = length mons" by (simp add: mons1_def)
  have attrs_nth: "attrs (mons1 ! k) = attrs (mons ! k)" if "k < length mons" for k
    using that at Cons.prems(3) len by (metis nth_map)
  have ok1: "list_all creature_ok mons1"
    unfolding list_all_length
  proof (intro allI impI)
    fix k assume "k < length mons1"
    then have k: "k < length mons" by (simp add: len)
    then have "creature_ok (mons ! k)" using Cons.prems(4) by (simp add: list_all_length)
    then show "creature_ok (mons1 ! k)"
      using creature_ok_attrs [OF attrs_nth [OF k]] by simp
  qed
  have d: "distinct idx" and ni: "i \<notin> set idx" using Cons.prems(1) by simp_all
  have b: "\<forall>j \<in> set idx. j < length mons1" using Cons.prems(2) by (simp add: len)
  from Cons.IH [OF d b at ok1] obtain mons' where
    res: "link_from idx mons1 = Inr mons'" and at': "map attrs mons' = catalog" and
    ev: "\<forall>k < length mons1. evolutions (mons' ! k) =
              (if k \<in> set idx
               then evolutions (mons1 ! k) @ expected_links catalog (raw_branches (mons1 ! k))
               else evolutions (mons1 ! k))"
    by blast
  have run: "link_from (i # idx) mons = Inr mons'"
    using evolution_branch_ok [OF oki] step res by simp
  have "evolutions (mons' ! k) =
              (if k \<in> set (i # idx)
               then evolutions (mons ! k) @ expected_links catalog (raw_branches (mons ! k))
               else evolutions (mons ! k))" if k: "k < length mons" for k
  proof (cases "k = i")
    case True
    then show ?thesis using ev k ni by (simp add: len mons1_def)
  next
    case False
    then have same: "mons1 ! k = mons ! k" by (simp add: mons1_def)
    show ?thesis using ev k False by (simp add: len same)
  qed
  with run at' show ?case by blast
qed

lemma get_object_from_template:
  "(case get_object_from n final objs [(''template'', t)] True of
      Found j \<Rightarrow> (\<exists>m. j = n + m \<and> m < length objs \<and>
                 py_eq (dict_get (objs ! m) ''template'' PNone) t \<and>
                 (\<forall>k < m. \<not> py_eq (dict_get (objs ! k) ''template'' PNone) t))
    | NotFound \<Rightarrow> \<forall>k < length objs. \<not> py_eq (dict_get (objs ! k) ''template'' PNone) t
    | Matches ms \<Rightarrow> False)"
proof (induction objs arbitrary: n final)
  case Nil
  then show ?case by simp
next
  case (Cons obj objs)
  show ?case
  proof (cases "wanted obj [(''template'', t)]")
    case True
    then show ?thesis by (simp add: wanted_def)
  next
    case False
    then have no: "\<not> py_eq (dict_get obj ''template'' PNone) t" by (simp add: wanted_def)
    show ?thesis
    proof (cases "get_object_from (Suc n) final objs [(''template'', t)] True")
      case (Found j)
      with Cons.IH [of "Suc n" final] obtain m where m: "j = Suc n + m" "m < length objs"
        "py_eq (dict_get (objs ! m) ''template'' PNone) t"
        "\<forall>k < m. \<not> py_eq (dict_get (objs ! k) ''template'' PNone) t"
        by auto
      have "\<forall>k < Suc m. \<not> py_eq (dict_get ((obj # objs) ! k) ''template'' PNone) t"
        using no m(4) by (auto simp: less_Suc_eq_0_disj)
      with m have "j = n + Suc m \<and> Suc m < length (obj # objs) \<and>
                 py_eq (dict_get ((obj # objs) ! Suc m) ''template'' PNone) t \<and>
                 (\<forall>k < Suc m. \<not> py_eq (dict_get ((obj # objs) ! k) ''template'' PNone) t)"
        by simp
      then show ?thesis using False Found by (simp del: nth_Cons_Suc)
    next
      case NotFound
      with Cons.IH [of "Suc n" final]
      have "\<forall>k < length objs. \<not> py_eq (dict_get (objs ! k) ''template'' PNone) t" by simp
      then have "\<forall>k < length (obj # objs). \<not> py_eq (dict_get ((obj # objs) ! k) ''template'' PNone) t"
        using no by (auto simp: less_Suc_eq_0_disj)
      then show ?thesis using False NotFound by simp
    next
      case (Matches ms)
      with Cons.IH [of "Suc n" final] show ?thesis by simp
    qed
  qed
qed

text \<open>
  C3, as the code has it. On a list of well-formed creatures the linking pass returns; it
  changes only \<open>evolutions\<close>, and appends to each creature's \<open>evolutions\<close> one entry
  for every branch entry that is not a temporary evolution, in order (temporary ones are
  skipped): the reference that \<open>__get_object\<close> returns for the target template (the
  form-specific field when present, else the plain one). That reference is the first
  creature of the list whose template equals the target, and \<open>None\<close> when the list has
  no such creature: the entry is then present and empty, not omitted.
\<close>

theorem link_evolutions_appends:
  assumes "list_all creature_ok mons"
  shows "\<exists>mons'. link_evolutions mons = Inr mons' \<and> length mons' = length mons \<and>
           (\<forall>i < length mons.
              attrs (mons' ! i) = attrs (mons ! i) \<and>
              evolutions (mons' ! i)
                = evolutions (mons ! i) @ expected_links (map attrs mons) (raw_branches (mons ! i))) \<and>
           (\<forall>t. case get_object (map attrs mons) [(''template'', t)] True of
                  Found j \<Rightarrow> j < length mons \<and>
                    py_eq (dict_get (attrs (mons ! j)) ''template'' PNone) t \<and>
                    (\<forall>k < j. \<not> py_eq (dict_get (attrs (mons ! k)) ''template'' PNone) t)
                | NotFound \<Rightarrow>
                    \<forall>k < length mons. \<not> py_eq (dict_get (attrs (mons ! k)) ''template'' PNone) t
                | Matches ms \<Rightarrow> False)"
proof -
  have d: "distinct [0..<length mons]" by simp
  have b: "\<forall>i \<in> set [0..<length mons]. i < length mons" by simp
  from link_from_ok [OF d b refl assms] obtain mons' where
    res: "link_from [0..<length mons] mons = Inr mons'" and
    at: "map attrs mons' = map attrs mons" and
    ev: "\<forall>i < length mons. evolutions (mons' ! i) =
              (if i \<in> set [0..<length mons]
               then evolutions (mons ! i) @ expected_links (map attrs mons) (raw_branches (mons ! i))
               else evolutions (mons ! i))"
    by blast
  have len: "length mons' = length mons" using at by (rule map_eq_imp_length_eq)
  have a: "attrs (mons' ! i) = attrs (mons ! i)" if "i < length mons" for i
    using that at len by (metis nth_map)
  have e: "evolutions (mons' ! i)
             = evolutions (mons ! i) @ expected_links (map attrs mons) (raw_branches (mons ! i))"
    if "i < length mons" for i
    using ev that by simp
  have g: "case get_object (map attrs mons) [(''template'', t)] True of
             Found j \<Rightarrow> j < length mons \<and>
               py_eq (dict_get (attrs (mons ! j)) ''template'' PNone) t \<and>
               (\<forall>k < j. \<not> py_eq (dict_get (attrs (mons ! k)) ''template'' PNone) t)
           | NotFound \<Rightarrow>
               \<forall>k < length mons. \<not> py_eq (dict_get (attrs (mons ! k)) ''template'' PNone) t
           | Matches ms \<Rightarrow> False" for t
  proof (cases "get_object (map attrs mons) [(''template'', t)] True")
    case (Found j)
    from get_object_from_template [where n = 0 and final = "[]" and objs = "map attrs mons" and t = t] Found
    have j: "j < length mons"
      and hit: "py_eq (dict_get (map attrs mons ! j) ''template'' PNone) t"
      and first: "\<forall>k < j. \<not> py_eq (dict_get (map attrs mons ! k) ''template'' PNone) t"
      by (auto simp: get_object_def)
    have "\<not> py_eq (dict_get (attrs (mons ! k)) ''template'' PNone) t" if "k < j" for k
    proof -
      from that j have k: "k < length mons" by simp
      from first that have "\<not> py_eq (dict_get (map attrs mons ! k) ''template'' PNone) t" by blast
      then show ?thesis using k by simp
    qed
    then show ?thesis using Found j hit by simp
  next
    case NotFound
    from get_object_from_template [where n = 0 and final = "[]" and objs = "map attrs mons" and t = t] NotFound
    have none: "\<forall>k < length mons. \<not> py_eq (dict_get (map attrs mons ! k) ''template'' PNone) t"
      by (simp add: get_object_def)
    have "\<not> py_eq (dict_get (attrs (mons ! k)) ''template'' PNone) t" if "k < length mons" for k
      using none that by (metis nth_map)
    then show ?thesis using NotFound by simp
  next
    case (Matches ms)
    with get_object_from_template [where n = 0 and final = "[]" and objs = "map attrs mons" and t = t] show ?thesis
      by (simp add: get_object_def)
  qed
  from res len a e g show ?thesis
    unfolding link_evolutions_def by blast
qed

theorem link_evolutions_appends_witness:
  "link_evolutions [pichu, pikachu_raw, raichu]
     = Inr [pichu\<lparr>evolutions := [Found 1]\<rparr>,
            pikachu_raw\<lparr>evolutions := [Found 2, NotFound]\<rparr>,
            raichu]"
proof -
  have ok: "list_all creature_ok [pichu, pikachu_raw, raichu]"
    by (simp add: creature_ok_def pichu_def pikachu_raw_def raichu_def dict_get_def)
  have e: "link_evolutions [pichu, pikachu_raw, raichu]
     = Inr [pichu\<lparr>evolutions := [Found 1]\<rparr>,
            pikachu_raw\<lparr>evolutions := [Found 2, NotFound]\<rparr>,
            raichu]"
    by code_simp
  show ?thesis
    using link_evolutions_appends [OF ok] e by simp
qed

text \<open>
  C3 as the spec words it fails for a target template absent from the list: \<open>get_mon\<close>
  returns \<open>None\<close> and the loop appends it, so \<open>evolutions\<close> gets an empty reference.
\<close>

theorem link_evolutions_missing_target_counterexample:
  "link_evolutions [pichu] = Inr [pichu\<lparr>evolutions := [NotFound]\<rparr>] \<and>
   get_object (map attrs [pichu]) [(''template'', PStr ''PIKACHU'')] True = NotFound"
  by code_simp

end
